theory Spec2Isabelle
  imports Main
begin

section \<open>Errors and durations\<close>

text \<open>
  A Go \<open>error\<close> is modelled as \<open>error option\<close>, \<open>None\<close> being \<open>nil\<close>.  The four sentinel
  values of package \<open>filelock\<close> are constructors of their own.  Errors that come from the
  operating system keep the error number the system call reported: \<open>Errno n\<close> is the
  \<open>syscall.Errno\<close> a lock primitive returned, \<open>PathError n\<close> is the \<open>*fs.PathError\<close>
  of \<open>os.OpenFile\<close> and \<open>File.Close\<close>.
\<close>

type_synonym errno = nat

datatype error =
    ErrTimeout
  | ErrLockHeld
  | ErrAlreadyLocked
  | ErrNotLocked
  | Errno errno
  | PathError errno

text \<open>The errors that are passed through from the operating system unchanged.\<close>

definition is_os_error :: "error \<Rightarrow> bool" where
  "is_os_error x = (case x of Errno n \<Rightarrow> True | PathError n \<Rightarrow> True | _ \<Rightarrow> False)"

text \<open>
  The two error numbers the lock primitives use for "somebody else holds the lock".  They are
  constants of \<open>golang.org/x/sys/windows\<close> and of \<open>syscall\<close>; no proof below depends on
  their values.
\<close>

definition ERROR_LOCK_VIOLATION :: errno where
  "ERROR_LOCK_VIOLATION = 33"

definition EWOULDBLOCK :: errno where
  "EWOULDBLOCK = 11"

text \<open>\<open>time.Duration\<close> counts nanoseconds.\<close>

definition Millisecond :: int where
  "Millisecond = 1000000"

text \<open>
  \<open>time.Duration(float64(d) * 1.5)\<close>: the product is exact in \<open>float64\<close> for every
  \<open>d\<close> below \<open>2^51\<close> in absolute value, and the conversion back truncates towards zero.
\<close>

definition times_1_5 :: "int \<Rightarrow> int" where
  "times_1_5 d = (if 0 \<le> d then (3 * d) div 2 else - ((3 * (- d)) div 2))"

section \<open>The operating system\<close>

text \<open>
  The part of the world the lock handle talks to: a monotonic clock, the log of the
  durations passed to \<open>time.Sleep\<close>, the descriptors this process has open, the descriptors
  on which it holds the exclusive lock, one counter per system call and one for the
  readings of the clock.  The field \<open>clock\<close> is the time at the latest reading of the
  clock or wake-up from a sleep.
\<close>

record world =
  clock :: int
  sleeps :: "int list"
  open_fds :: "nat set"
  held_fds :: "nat set"
  next_fd :: nat
  open_calls :: nat
  lock_calls :: nat
  unlock_calls :: nat
  close_calls :: nat
  clock_reads :: nat

text \<open>
  What the environment decides: the outcome of the \<open>k\<close>-th call of each system call
  (\<open>None\<close> is success), by how much the \<open>k\<close>-th sleep overruns the requested duration,
  and how much time has passed outside sleeps (in system calls and between statements)
  when the clock is read for the \<open>k\<close>-th time.
\<close>

record env =
  open_result :: "nat \<Rightarrow> errno option"
  lock_result :: "nat \<Rightarrow> errno option"
  unlock_result :: "nat \<Rightarrow> errno option"
  close_result :: "nat \<Rightarrow> errno option"
  oversleep :: "nat \<Rightarrow> nat"
  drift :: "nat \<Rightarrow> nat"

text \<open>\<open>time.Now\<close> and \<open>time.Since\<close> read the clock, which has moved on since it was last looked at.\<close>

definition time_Now :: "env \<Rightarrow> world \<Rightarrow> int \<times> world" where
  "time_Now e w =
     (let now = clock w + int (drift e (clock_reads w))
      in (now, w\<lparr>clock := now, clock_reads := Suc (clock_reads w)\<rparr>))"

definition time_Since :: "env \<Rightarrow> int \<Rightarrow> world \<Rightarrow> int \<times> world" where
  "time_Since e t w = (let (now, w') = time_Now e w in (now - t, w'))"

text \<open>\<open>time.Sleep d\<close> returns at once for \<open>d \<le> 0\<close> and pauses for at least \<open>d\<close> otherwise.\<close>

definition time_Sleep :: "env \<Rightarrow> int \<Rightarrow> world \<Rightarrow> world" where
  "time_Sleep e d w =
     w\<lparr>clock := clock w + max d 0 + int (oversleep e (length (sleeps w))),
       sleeps := sleeps w @ [d]\<rparr>"

text \<open>\<open>os.OpenFile\<close> with \<open>O_CREATE|O_RDWR\<close>: a fresh descriptor, or the error (and then
  the \<open>*os.File\<close> it returns is \<open>nil\<close>).\<close>

definition os_OpenFile :: "env \<Rightarrow> string \<Rightarrow> world \<Rightarrow> (error + nat) \<times> world" where
  "os_OpenFile e p w =
     (case open_result e (open_calls w) of
        Some n \<Rightarrow> (Inl (PathError n), w\<lparr>open_calls := Suc (open_calls w)\<rparr>)
      | None \<Rightarrow>
          (Inr (next_fd w),
           w\<lparr>open_fds := insert (next_fd w) (open_fds w),
             next_fd := Suc (next_fd w),
             open_calls := Suc (open_calls w)\<rparr>))"

text \<open>
  \<open>File.Close\<close>: the descriptor is gone afterwards, and with it every lock held through
  it, whether or not an error is reported.
\<close>

definition File_Close :: "env \<Rightarrow> nat \<Rightarrow> world \<Rightarrow> error option \<times> world" where
  "File_Close e fd w =
     (map_option PathError (close_result e (close_calls w)),
      w\<lparr>open_fds := open_fds w - {fd},
        held_fds := held_fds w - {fd},
        close_calls := Suc (close_calls w)\<rparr>)"

text \<open>
  \<open>windows.LockFileEx\<close> with \<open>LOCKFILE_EXCLUSIVE_LOCK|LOCKFILE_FAIL_IMMEDIATELY\<close> and
  \<open>windows.UnlockFileEx\<close>: one attempt each, never blocking.
\<close>

definition LockFileEx :: "env \<Rightarrow> nat \<Rightarrow> world \<Rightarrow> errno option \<times> world" where
  "LockFileEx e handle w =
     (let r = lock_result e (lock_calls w)
      in (r, w\<lparr>held_fds := (if r = None then insert handle (held_fds w) else held_fds w),
               lock_calls := Suc (lock_calls w)\<rparr>))"

definition UnlockFileEx :: "env \<Rightarrow> nat \<Rightarrow> world \<Rightarrow> errno option \<times> world" where
  "UnlockFileEx e handle w =
     (let r = unlock_result e (unlock_calls w)
      in (r, w\<lparr>held_fds := (if r = None then held_fds w - {handle} else held_fds w),
               unlock_calls := Suc (unlock_calls w)\<rparr>))"

text \<open>\<open>syscall.Flock\<close> with the two operations the Unix handle uses.\<close>

datatype flock_how = LOCK_EX_NB | LOCK_UN

definition syscall_Flock :: "env \<Rightarrow> nat \<Rightarrow> flock_how \<Rightarrow> world \<Rightarrow> errno option \<times> world" where
  "syscall_Flock e fd how w =
     (case how of
        LOCK_EX_NB \<Rightarrow>
          (let r = lock_result e (lock_calls w)
           in (r, w\<lparr>held_fds := (if r = None then insert fd (held_fds w) else held_fds w),
                    lock_calls := Suc (lock_calls w)\<rparr>))
      | LOCK_UN \<Rightarrow>
          (let r = unlock_result e (unlock_calls w)
           in (r, w\<lparr>held_fds := (if r = None then held_fds w - {fd} else held_fds w),
                    unlock_calls := Suc (unlock_calls w)\<rparr>)))"

section \<open>The lock handle\<close>

text \<open>
  \<open>FileLock\<close> is the same struct in packages \<open>windows\<close> and \<open>unix\<close>.  Its mutex is held
  for the whole of every method, so a method is one step of the model and the mutex is
  not a field here.  The field \<open>file\<close> is written \<open>file'\<close>; it holds the descriptor
  of the open file, \<open>None\<close> for \<open>nil\<close>.
\<close>

record FileLock =
  path :: string
  file' :: "nat option"
  locked :: bool

definition New :: "string \<Rightarrow> FileLock" where
  "New p = \<lparr>path = p, file' = None, locked = False\<rparr>"

subsection \<open>Package windows\<close>

text \<open>
  The \<open>for\<close> loop of \<open>tryLock\<close>.  It does not return when the clock stands still, so the
  result is an option and \<open>None\<close> is "no return".  The loop is entered with the
  \<open>startTime\<close> that \<open>tryLock\<close> has read.
\<close>

partial_function (option) windows_tryLock_loop ::
  "env \<Rightarrow> int \<Rightarrow> int \<Rightarrow> int \<Rightarrow> nat \<Rightarrow> world \<Rightarrow> (error option \<times> world) option" where
  "windows_tryLock_loop e timeout startTime retryInterval handle w =
     (let (elapsed, w0) = time_Since e startTime w
      in if timeout \<le> elapsed then Some (Some ErrTimeout, w0)
         else
           let w1 = time_Sleep e retryInterval w0;
               retryInterval' =
                 (if retryInterval < Millisecond * 100 then times_1_5 retryInterval
                  else retryInterval);
               (err, w2) = LockFileEx e handle w1
           in if err = None \<or> err \<noteq> Some ERROR_LOCK_VIOLATION
              then Some (map_option Errno err, w2)
              else windows_tryLock_loop e timeout startTime retryInterval' handle w2)"

declare windows_tryLock_loop.simps [code]

definition windows_tryLock ::
  "env \<Rightarrow> int \<Rightarrow> nat \<Rightarrow> world \<Rightarrow> (error option \<times> world) option" where
  "windows_tryLock e timeout handle w =
     (let (err, w1) = LockFileEx e handle w
      in if err = None \<or> err \<noteq> Some ERROR_LOCK_VIOLATION then Some (map_option Errno err, w1)
         else if timeout \<le> 0 then Some (Some ErrLockHeld, w1)
         else
           let (startTime, w2) = time_Now e w1
           in windows_tryLock_loop e timeout startTime (Millisecond * 10) handle w2)"

definition windows_LockWithTimeout ::
  "env \<Rightarrow> int \<Rightarrow> FileLock \<Rightarrow> world \<Rightarrow> (error option \<times> FileLock \<times> world) option" where
  "windows_LockWithTimeout e timeout fl w =
     (if locked fl then Some (Some ErrAlreadyLocked, fl, w)
      else
        case os_OpenFile e (path fl) w of
          (Inl err, w1) \<Rightarrow> Some (Some err, fl\<lparr>file' := None\<rparr>, w1)
        | (Inr fd, w1) \<Rightarrow>
            (case windows_tryLock e timeout fd w1 of
               None \<Rightarrow> None
             | Some (Some err, w2) \<Rightarrow>
                 (let (_, w3) = File_Close e fd w2
                  in Some (Some err, fl\<lparr>file' := None\<rparr>, w3))
             | Some (None, w2) \<Rightarrow> Some (None, fl\<lparr>file' := Some fd, locked := True\<rparr>, w2)))"

definition windows_Lock ::
  "env \<Rightarrow> FileLock \<Rightarrow> world \<Rightarrow> (error option \<times> FileLock \<times> world) option" where
  "windows_Lock e fl w = windows_LockWithTimeout e 0 fl w"

definition windows_Unlock :: "env \<Rightarrow> FileLock \<Rightarrow> world \<Rightarrow> error option \<times> FileLock \<times> world" where
  "windows_Unlock e fl w =
     (if \<not> locked fl \<or> file' fl = None then (Some ErrNotLocked, fl, w)
      else
        let handle = the (file' fl);
            (err, w1) = UnlockFileEx e handle w
        in if err \<noteq> None then (map_option Errno err, fl, w1)
           else
             let (cerr, w2) = File_Close e handle w1
             in (cerr, fl\<lparr>file' := None, locked := False\<rparr>, w2))"

subsection \<open>Package unix\<close>

partial_function (option) unix_tryLock_loop ::
  "env \<Rightarrow> int \<Rightarrow> int \<Rightarrow> int \<Rightarrow> nat \<Rightarrow> world \<Rightarrow> (error option \<times> world) option" where
  "unix_tryLock_loop e timeout startTime retryInterval fd w =
     (let (elapsed, w0) = time_Since e startTime w
      in if timeout \<le> elapsed then Some (Some ErrTimeout, w0)
         else
           let w1 = time_Sleep e retryInterval w0;
               retryInterval' =
                 (if retryInterval < Millisecond * 100 then times_1_5 retryInterval
                  else retryInterval);
               (err, w2) = syscall_Flock e fd LOCK_EX_NB w1
           in if err = None then Some (None, w2)
              else if err \<noteq> Some EWOULDBLOCK then Some (map_option Errno err, w2)
              else unix_tryLock_loop e timeout startTime retryInterval' fd w2)"

declare unix_tryLock_loop.simps [code]

definition unix_tryLock ::
  "env \<Rightarrow> int \<Rightarrow> nat \<Rightarrow> world \<Rightarrow> (error option \<times> world) option" where
  "unix_tryLock e timeout fd w =
     (let (err, w1) = syscall_Flock e fd LOCK_EX_NB w
      in if err = None then Some (None, w1)
         else if err = Some EWOULDBLOCK then
           (if timeout \<le> 0 then Some (Some ErrLockHeld, w1)
            else
              let (startTime, w2) = time_Now e w1
              in unix_tryLock_loop e timeout startTime (Millisecond * 10) fd w2)
         else Some (map_option Errno err, w1))"

definition unix_LockWithTimeout ::
  "env \<Rightarrow> int \<Rightarrow> FileLock \<Rightarrow> world \<Rightarrow> (error option \<times> FileLock \<times> world) option" where
  "unix_LockWithTimeout e timeout fl w =
     (if locked fl then Some (Some ErrAlreadyLocked, fl, w)
      else
        case os_OpenFile e (path fl) w of
          (Inl err, w1) \<Rightarrow> Some (Some err, fl\<lparr>file' := None\<rparr>, w1)
        | (Inr fd, w1) \<Rightarrow>
            (case unix_tryLock e timeout fd w1 of
               None \<Rightarrow> None
             | Some (Some err, w2) \<Rightarrow>
                 (let (_, w3) = File_Close e fd w2
                  in Some (Some err, fl\<lparr>file' := None\<rparr>, w3))
             | Some (None, w2) \<Rightarrow> Some (None, fl\<lparr>file' := Some fd, locked := True\<rparr>, w2)))"

definition unix_Lock ::
  "env \<Rightarrow> FileLock \<Rightarrow> world \<Rightarrow> (error option \<times> FileLock \<times> world) option" where
  "unix_Lock e fl w = unix_LockWithTimeout e 0 fl w"

definition unix_Unlock :: "env \<Rightarrow> FileLock \<Rightarrow> world \<Rightarrow> error option \<times> FileLock \<times> world" where
  "unix_Unlock e fl w =
     (if \<not> locked fl \<or> file' fl = None then (Some ErrNotLocked, fl, w)
      else
        let fd = the (file' fl);
            (err, w1) = syscall_Flock e fd LOCK_UN w
        in if err \<noteq> None then (map_option Errno err, fl, w1)
           else
             let (cerr, w2) = File_Close e fd w1
             in (cerr, fl\<lparr>file' := None, locked := False\<rparr>, w2))"

subsection \<open>The interface \<open>filelock.FileLock\<close>\<close>

text \<open>
  \<open>fs.New\<close> picks the implementation by platform; a call through the interface goes to the
  method of that implementation.
\<close>

datatype platform = Windows | Unix

definition LockWithTimeout ::
  "platform \<Rightarrow> env \<Rightarrow> int \<Rightarrow> FileLock \<Rightarrow> world \<Rightarrow> (error option \<times> FileLock \<times> world) option" where
  "LockWithTimeout pf e timeout fl w =
     (case pf of
        Windows \<Rightarrow> windows_LockWithTimeout e timeout fl w
      | Unix \<Rightarrow> unix_LockWithTimeout e timeout fl w)"

definition Lock ::
  "platform \<Rightarrow> env \<Rightarrow> FileLock \<Rightarrow> world \<Rightarrow> (error option \<times> FileLock \<times> world) option" where
  "Lock pf e fl w = (case pf of Windows \<Rightarrow> windows_Lock e fl w | Unix \<Rightarrow> unix_Lock e fl w)"

definition Unlock ::
  "platform \<Rightarrow> env \<Rightarrow> FileLock \<Rightarrow> world \<Rightarrow> error option \<times> FileLock \<times> world" where
  "Unlock pf e fl w = (case pf of Windows \<Rightarrow> windows_Unlock e fl w | Unix \<Rightarrow> unix_Unlock e fl w)"

definition IsLocked :: "FileLock \<Rightarrow> bool" where
  "IsLocked fl = locked fl"

subsection \<open>Sequences of calls\<close>

datatype call = CallLock | CallLockWithTimeout int | CallUnlock

definition step ::
  "platform \<Rightarrow> env \<Rightarrow> call \<Rightarrow> FileLock \<times> world \<Rightarrow> (FileLock \<times> world) option" where
  "step pf e c s =
     (case c of
        CallLock \<Rightarrow> map_option snd (Lock pf e (fst s) (snd s))
      | CallLockWithTimeout t \<Rightarrow> map_option snd (LockWithTimeout pf e t (fst s) (snd s))
      | CallUnlock \<Rightarrow> Some (snd (Unlock pf e (fst s) (snd s))))"

primrec run ::
  "platform \<Rightarrow> env \<Rightarrow> call list \<Rightarrow> FileLock \<times> world \<Rightarrow> (FileLock \<times> world) option" where
  "run pf e [] s = Some s"
| "run pf e (c # cs) s = (case step pf e c s of None \<Rightarrow> None | Some s' \<Rightarrow> run pf e cs s')"

text \<open>
  The invariant of the handle: a locked handle has a descriptor that is open and holds the
  exclusive lock, an unlocked handle has none.
\<close>

definition state_invariant :: "FileLock \<Rightarrow> world \<Rightarrow> bool" where
  "state_invariant fl w =
     (if locked fl
      then (case file' fl of None \<Rightarrow> False | Some fd \<Rightarrow> fd \<in> open_fds w \<and> fd \<in> held_fds w)
      else file' fl = None)"

section \<open>Concrete environments\<close>

text \<open>The error number with which the platform's primitive reports a lock held elsewhere.\<close>

definition held_code :: "platform \<Rightarrow> errno" where
  "held_code pf = (case pf of Windows \<Rightarrow> ERROR_LOCK_VIOLATION | Unix \<Rightarrow> EWOULDBLOCK)"

text \<open>A freshly started process: clock at zero, nothing open, nothing called yet.\<close>

definition boot :: world where
  "boot = \<lparr>clock = 0, sleeps = [], open_fds = {}, held_fds = {}, next_fd = 0,
            open_calls = 0, lock_calls = 0, unlock_calls = 0, close_calls = 0,
            clock_reads = 0\<rparr>"

text \<open>
  Another process holds the lock and never releases it; every other call succeeds, every
  sleep lasts exactly as long as asked and no time passes outside the sleeps.
\<close>

definition held_forever :: "platform \<Rightarrow> env" where
  "held_forever pf =
     \<lparr>open_result = (\<lambda>k. None), lock_result = (\<lambda>k. Some (held_code pf)),
      unlock_result = (\<lambda>k. None), close_result = (\<lambda>k. None), oversleep = (\<lambda>k. 0),
      drift = (\<lambda>k. 0)\<rparr>"

text \<open>
  The same, but two microseconds pass between any two readings of the clock.
\<close>

definition held_slow :: "platform \<Rightarrow> env" where
  "held_slow pf =
     \<lparr>open_result = (\<lambda>k. None), lock_result = (\<lambda>k. Some (held_code pf)),
      unlock_result = (\<lambda>k. None), close_result = (\<lambda>k. None), oversleep = (\<lambda>k. 0),
      drift = (\<lambda>k. 2000)\<rparr>"

text \<open>Nobody else holds the lock and every call succeeds.\<close>

definition all_ok :: env where
  "all_ok =
     \<lparr>open_result = (\<lambda>k. None), lock_result = (\<lambda>k. None),
      unlock_result = (\<lambda>k. None), close_result = (\<lambda>k. None), oversleep = (\<lambda>k. 0),
      drift = (\<lambda>k. 0)\<rparr>"

text \<open>The lock is free, but releasing it fails with error number 158.\<close>

definition release_fails :: env where
  "release_fails =
     \<lparr>open_result = (\<lambda>k. None), lock_result = (\<lambda>k. None),
      unlock_result = (\<lambda>k. Some 158), close_result = (\<lambda>k. None), oversleep = (\<lambda>k. 0),
      drift = (\<lambda>k. 0)\<rparr>"

text \<open>
  The handle and the world after a first successful \<open>Lock\<close> in a fresh process, and the
  world after a \<open>LockWithTimeout\<close> of 100 and of 300 milliseconds has timed out there
  under \<open>held_forever\<close>, and of one nanosecond under \<open>held_slow\<close>.
\<close>

definition locked_handle :: FileLock where
  "locked_handle = \<lparr>path = ''a.lock'', file' = Some 0, locked = True\<rparr>"

definition locked_world :: world where
  "locked_world = \<lparr>clock = 0, sleeps = [], open_fds = {0}, held_fds = {0}, next_fd = 1,
                    open_calls = 1, lock_calls = 1, unlock_calls = 0, close_calls = 0,
                    clock_reads = 0\<rparr>"

definition after_100ms :: world where
  "after_100ms =
     \<lparr>clock = 131875000,
      sleeps = [10000000, 15000000, 22500000, 33750000, 50625000],
      open_fds = {}, held_fds = {}, next_fd = 1,
      open_calls = 1, lock_calls = 6, unlock_calls = 0, close_calls = 1, clock_reads = 7\<rparr>"

definition after_300ms :: world where
  "after_300ms =
     \<lparr>clock = 321718750,
      sleeps = [10000000, 15000000, 22500000, 33750000, 50625000, 75937500, 113906250],
      open_fds = {}, held_fds = {}, next_fd = 1,
      open_calls = 1, lock_calls = 8, unlock_calls = 0, close_calls = 1, clock_reads = 9\<rparr>"

definition after_1ns :: world where
  "after_1ns =
     \<lparr>clock = 4000, sleeps = [], open_fds = {}, held_fds = {}, next_fd = 1,
      open_calls = 1, lock_calls = 1, unlock_calls = 0, close_calls = 1, clock_reads = 2\<rparr>"

text \<open>
  The length of the last sleep between the worlds \<open>w\<close> and \<open>w'\<close>, overrun included;
  zero when there was no sleep.
\<close>

definition last_sleep :: "env \<Rightarrow> world \<Rightarrow> world \<Rightarrow> int" where
  "last_sleep e w w' =
     (if sleeps w' = sleeps w then 0
      else max (last (sleeps w')) 0 + int (oversleep e (length (sleeps w') - 1)))"

section \<open>Auxiliary notions for the proofs\<close>

text \<open>The world after a reading of the clock.\<close>

definition read_world :: "env \<Rightarrow> world \<Rightarrow> world" where
  "read_world e w = snd (time_Now e w)"

text \<open>One round of either loop: the deadline test, the sleep, then one attempt.\<close>

definition round_world :: "env \<Rightarrow> int \<Rightarrow> nat \<Rightarrow> world \<Rightarrow> world" where
  "round_world e r h w = snd (LockFileEx e h (time_Sleep e r (read_world e w)))"

definition round_err :: "env \<Rightarrow> world \<Rightarrow> errno option" where
  "round_err e w = lock_result e (lock_calls w)"

text \<open>The update of \<open>retryInterval\<close> in the body of the loop.\<close>

definition next_interval :: "int \<Rightarrow> int" where
  "next_interval r = (if r < Millisecond * 100 then times_1_5 r else r)"

text \<open>
  What a run of the retry loop, started at \<open>w\<close> with start time \<open>s\<close>, may end with: the
  result \<open>err\<close> and the world \<open>w'\<close>.  The code \<open>c\<close> is the platform's "held" signal.
\<close>

definition loop_post ::
  "int \<Rightarrow> int \<Rightarrow> nat \<Rightarrow> errno \<Rightarrow> world \<Rightarrow> error option \<Rightarrow> world \<Rightarrow> bool" where
  "loop_post t s h c w err w' \<longleftrightarrow>
     open_fds w' = open_fds w \<and> next_fd w' = next_fd w \<and> open_calls w' = open_calls w \<and>
     unlock_calls w' = unlock_calls w \<and> close_calls w' = close_calls w \<and>
     clock w \<le> clock w' \<and>
     held_fds w' = (if err = None then insert h (held_fds w) else held_fds w) \<and>
     (err = None \<or> (err = Some ErrTimeout \<and> t \<le> clock w' - s) \<or>
      (\<exists>n. n \<noteq> c \<and> err = Some (Errno n)))"

text \<open>The same for a whole \<open>tryLock\<close>.\<close>

definition tryLock_post ::
  "env \<Rightarrow> int \<Rightarrow> nat \<Rightarrow> errno \<Rightarrow> world \<Rightarrow> error option \<Rightarrow> world \<Rightarrow> bool" where
  "tryLock_post e t h c w err w' \<longleftrightarrow>
     open_fds w' = open_fds w \<and> next_fd w' = next_fd w \<and> open_calls w' = open_calls w \<and>
     unlock_calls w' = unlock_calls w \<and> close_calls w' = close_calls w \<and>
     clock w \<le> clock w' \<and>
     held_fds w' = (if err = None then insert h (held_fds w) else held_fds w) \<and>
     (t \<le> 0 \<longrightarrow> clock w' = clock w \<and> sleeps w' = sleeps w \<and> lock_calls w' = Suc (lock_calls w)) \<and>
     (err = None \<or> (err = Some ErrLockHeld \<and> t \<le> 0) \<or>
      (err = Some ErrTimeout \<and> 0 < t \<and>
       t \<le> clock w' - (clock w + int (drift e (clock_reads w)))) \<or>
      (\<exists>n. n \<noteq> c \<and> err = Some (Errno n)))"

text \<open>And for a \<open>LockWithTimeout\<close> on an unlocked handle.\<close>

definition lwt_post ::
  "env \<Rightarrow> int \<Rightarrow> FileLock \<Rightarrow> world \<Rightarrow> error option \<Rightarrow> FileLock \<Rightarrow> world \<Rightarrow> bool" where
  "lwt_post e t fl w r fl' w' \<longleftrightarrow>
     clock w \<le> clock w' \<and>
     (t \<le> 0 \<longrightarrow> clock w' = clock w \<and> sleeps w' = sleeps w \<and> lock_calls w' \<le> Suc (lock_calls w)) \<and>
     (case open_result e (open_calls w) of
        Some n \<Rightarrow>
          r = Some (PathError n) \<and> fl' = fl\<lparr>file' := None\<rparr> \<and>
          open_fds w' = open_fds w \<and> held_fds w' = held_fds w
      | None \<Rightarrow>
          if r = None
          then fl' = fl\<lparr>file' := Some (next_fd w), locked := True\<rparr> \<and>
               open_fds w' = insert (next_fd w) (open_fds w) \<and>
               held_fds w' = insert (next_fd w) (held_fds w)
          else fl' = fl\<lparr>file' := None\<rparr> \<and>
               open_fds w' = open_fds w - {next_fd w} \<and>
               held_fds w' = held_fds w - {next_fd w} \<and>
               ((r = Some ErrLockHeld \<and> t \<le> 0) \<or>
                (r = Some ErrTimeout \<and> 0 < t \<and>
                 t \<le> clock w' - (clock w + int (drift e (clock_reads w)))) \<or>
                (\<exists>n. r = Some (Errno n))))"

section \<open>System calls\<close>

lemma Flock_lock_eq: "syscall_Flock e fd LOCK_EX_NB w = LockFileEx e fd w"
  by (simp add: syscall_Flock_def LockFileEx_def)

lemma Flock_unlock_eq: "syscall_Flock e fd LOCK_UN w = UnlockFileEx e fd w"
  by (simp add: syscall_Flock_def UnlockFileEx_def)

lemma times_1_5_pos: "0 < d \<Longrightarrow> 0 < times_1_5 d"
  by (simp add: times_1_5_def)

lemma next_interval_pos: "0 < r \<Longrightarrow> 0 < next_interval r"
  by (simp add: next_interval_def times_1_5_pos)

section \<open>The retry loop\<close>

lemma read_world_fields:
  "open_fds (read_world e w) = open_fds w"
  "held_fds (read_world e w) = held_fds w"
  "next_fd (read_world e w) = next_fd w"
  "open_calls (read_world e w) = open_calls w"
  "unlock_calls (read_world e w) = unlock_calls w"
  "close_calls (read_world e w) = close_calls w"
  "lock_calls (read_world e w) = lock_calls w"
  "sleeps (read_world e w) = sleeps w"
  "clock (read_world e w) = clock w + int (drift e (clock_reads w))"
  "clock_reads (read_world e w) = Suc (clock_reads w)"
  by (simp_all add: read_world_def time_Now_def Let_def)

lemma time_Now_eq: "time_Now e w = (clock w + int (drift e (clock_reads w)), read_world e w)"
  by (simp add: read_world_def time_Now_def Let_def)

lemma time_Since_eq:
  "time_Since e s w = (clock (read_world e w) - s, read_world e w)"
  by (simp add: time_Since_def time_Now_eq read_world_fields)

lemma round_world_fields:
  "open_fds (round_world e r h w) = open_fds w"
  "next_fd (round_world e r h w) = next_fd w"
  "open_calls (round_world e r h w) = open_calls w"
  "unlock_calls (round_world e r h w) = unlock_calls w"
  "close_calls (round_world e r h w) = close_calls w"
  "lock_calls (round_world e r h w) = Suc (lock_calls w)"
  "sleeps (round_world e r h w) = sleeps w @ [r]"
  "clock (round_world e r h w) =
     clock (read_world e w) + max r 0 + int (oversleep e (length (sleeps w)))"
  "clock_reads (round_world e r h w) = Suc (clock_reads w)"
  "held_fds (round_world e r h w) =
     (if round_err e w = None then insert h (held_fds w) else held_fds w)"
  by (simp_all add: round_world_def round_err_def LockFileEx_def time_Sleep_def Let_def
        read_world_fields)

lemma round_world_eq:
  "snd (LockFileEx e h (time_Sleep e r (read_world e w))) = round_world e r h w"
  "lock_result e (lock_calls (time_Sleep e r (read_world e w))) = round_err e w"
  by (simp_all add: round_world_def round_err_def time_Sleep_def read_world_fields)

lemma LockFileEx_eq: "LockFileEx e h w = (lock_result e (lock_calls w), snd (LockFileEx e h w))"
  by (simp add: LockFileEx_def Let_def)

lemma windows_loop_stop:
  "t \<le> clock (read_world e w) - s \<Longrightarrow>
   windows_tryLock_loop e t s r h w = Some (Some ErrTimeout, read_world e w)"
  by (subst windows_tryLock_loop.simps) (simp add: time_Since_eq)

lemma windows_loop_round:
  "\<not> t \<le> clock (read_world e w) - s \<Longrightarrow>
   windows_tryLock_loop e t s r h w =
     (if round_err e w \<noteq> Some ERROR_LOCK_VIOLATION
      then Some (map_option Errno (round_err e w), round_world e r h w)
      else windows_tryLock_loop e t s (next_interval r) h (round_world e r h w))"
  by (subst windows_tryLock_loop.simps, subst LockFileEx_eq)
     (auto simp add: time_Since_eq Let_def next_interval_def round_world_eq)

lemma unix_loop_stop:
  "t \<le> clock (read_world e w) - s \<Longrightarrow>
   unix_tryLock_loop e t s r h w = Some (Some ErrTimeout, read_world e w)"
  by (subst unix_tryLock_loop.simps) (simp add: time_Since_eq)

lemma unix_loop_round:
  "\<not> t \<le> clock (read_world e w) - s \<Longrightarrow>
   unix_tryLock_loop e t s r h w =
     (if round_err e w \<noteq> Some EWOULDBLOCK
      then Some (map_option Errno (round_err e w), round_world e r h w)
      else unix_tryLock_loop e t s (next_interval r) h (round_world e r h w))"
  by (subst unix_tryLock_loop.simps, subst Flock_lock_eq, subst LockFileEx_eq)
     (auto simp add: time_Since_eq Let_def next_interval_def round_world_eq)

text \<open>
  Any function that satisfies the two equations of the loop returns, because every round
  moves the clock forward by at least the positive interval.
\<close>

lemma loop_returns:
  fixes f :: "int \<Rightarrow> world \<Rightarrow> (error option \<times> world) option"
  assumes stop: "\<And>r w. t \<le> clock (read_world e w) - s \<Longrightarrow>
      f r w = Some (Some ErrTimeout, read_world e w)"
    and round: "\<And>r w. \<not> t \<le> clock (read_world e w) - s \<Longrightarrow>
      f r w = (if round_err e w \<noteq> Some c
               then Some (map_option Errno (round_err e w), round_world e r h w)
               else f (next_interval r) (round_world e r h w))"
    and pos: "0 < r"
  shows "\<exists>err w'. f r w = Some (err, w') \<and> loop_post t s h c w err w'"
  using pos
proof (induction "nat (t - (clock w - s))" arbitrary: r w rule: less_induct)
  case less
  show ?case
  proof (cases "t \<le> clock (read_world e w) - s")
    case True
    then show ?thesis
      by (simp add: stop loop_post_def read_world_fields)
  next
    case running: False
    let ?w2 = "round_world e r h w"
    have clk: "clock ?w2 =
        clock w + int (drift e (clock_reads w)) + r + int (oversleep e (length (sleeps w)))"
      using \<open>0 < r\<close> by (simp add: round_world_fields read_world_fields)
    have early: "clock w - s < t"
      using running by (simp add: read_world_fields)
    show ?thesis
    proof (cases "round_err e w = Some c")
      case False
      then have "f r w = Some (map_option Errno (round_err e w), ?w2)"
        using round [OF running] by simp
      moreover have "loop_post t s h c w (map_option Errno (round_err e w)) ?w2"
        using False clk \<open>0 < r\<close>
        by (cases "round_err e w") (simp_all add: loop_post_def round_world_fields)
      ultimately show ?thesis by blast
    next
      case True
      have dec: "nat (t - (clock ?w2 - s)) < nat (t - (clock w - s))"
        using clk \<open>0 < r\<close> early by simp
      obtain err' w' where
        rec: "f (next_interval r) ?w2 = Some (err', w')" and
        post: "loop_post t s h c ?w2 err' w'"
        using less.hyps [OF dec next_interval_pos [OF \<open>0 < r\<close>]] by blast
      have "loop_post t s h c w err' w'"
        using post clk True \<open>0 < r\<close> by (simp add: loop_post_def round_world_fields)
      moreover have "f r w = Some (err', w')"
        using round [OF running] True rec by simp
      ultimately show ?thesis by blast
    qed
  qed
qed

lemma windows_loop_returns:
  "0 < r \<Longrightarrow> \<exists>err w'. windows_tryLock_loop e t s r h w = Some (err, w') \<and>
     loop_post t s h ERROR_LOCK_VIOLATION w err w'"
  by (rule loop_returns [where f = "\<lambda>r w. windows_tryLock_loop e t s r h w" and e = e])
     (simp_all add: windows_loop_stop windows_loop_round)

lemma unix_loop_returns:
  "0 < r \<Longrightarrow> \<exists>err w'. unix_tryLock_loop e t s r h w = Some (err, w') \<and>
     loop_post t s h EWOULDBLOCK w err w'"
  by (rule loop_returns [where f = "\<lambda>r w. unix_tryLock_loop e t s r h w" and e = e])
     (simp_all add: unix_loop_stop unix_loop_round)

text \<open>
  When the lock is never released the loop ends with \<open>ErrTimeout\<close>.  If it is entered
  less than \<open>b\<close> after the deadline, it ends less than the last sleep (or \<open>b\<close>, when it
  does not sleep) and the time lost before the last reading of the clock after it.
\<close>

lemma loop_held:
  fixes f :: "int \<Rightarrow> world \<Rightarrow> (error option \<times> world) option"
  assumes stop: "\<And>r w. t \<le> clock (read_world e w) - s \<Longrightarrow>
      f r w = Some (Some ErrTimeout, read_world e w)"
    and round: "\<And>r w. \<not> t \<le> clock (read_world e w) - s \<Longrightarrow>
      f r w = (if round_err e w \<noteq> Some c
               then Some (map_option Errno (round_err e w), round_world e r h w)
               else f (next_interval r) (round_world e r h w))"
    and held: "\<And>k. lock_result e k = Some c"
    and pos: "0 < r"
    and entry: "clock w - s < t + b"
  shows "\<exists>w' ys. f r w = Some (Some ErrTimeout, w') \<and> t \<le> clock w' - s \<and>
           sleeps w' = sleeps w @ ys \<and>
           clock w' - s <
             t + (if ys = [] then b
                  else max (last ys) 0 + int (oversleep e (length (sleeps w') - 1))) +
             int (drift e (clock_reads w' - 1))"
  using pos entry
proof (induction "nat (t - (clock w - s))" arbitrary: r w b rule: less_induct)
  case less
  show ?case
  proof (cases "t \<le> clock (read_world e w) - s")
    case True
    have "f r w = Some (Some ErrTimeout, read_world e w)"
      using stop [OF True] .
    moreover have "clock (read_world e w) - s < t + b + int (drift e (clock_reads w))"
      using less.prems by (simp add: read_world_fields)
    ultimately show ?thesis
      using True by (simp add: read_world_fields)
  next
    case running: False
    let ?w2 = "round_world e r h w"
    let ?b2 = "max r 0 + int (oversleep e (length (sleeps w)))"
    have rpos: "0 < r"
      using less.prems(1) .
    have clk: "clock ?w2 = clock (read_world e w) + ?b2"
      by (simp add: round_world_fields)
    have early: "clock w - s < t"
      using running by (simp add: read_world_fields)
    have step: "f r w = f (next_interval r) ?w2"
      using round [OF running] held by (simp add: round_err_def)
    have dec: "nat (t - (clock ?w2 - s)) < nat (t - (clock w - s))"
      using clk rpos early by (simp add: read_world_fields)
    have entry2: "clock ?w2 - s < t + ?b2"
      using clk running by simp
    obtain w' ys where
      rec: "f (next_interval r) ?w2 = Some (Some ErrTimeout, w')" and
      late: "t \<le> clock w' - s" and
      log: "sleeps w' = sleeps ?w2 @ ys" and
      bound: "clock w' - s <
             t + (if ys = [] then ?b2
                  else max (last ys) 0 + int (oversleep e (length (sleeps w') - 1))) +
             int (drift e (clock_reads w' - 1))"
      using less.hyps [OF dec next_interval_pos [OF rpos] entry2] by blast
    have log': "sleeps w' = sleeps w @ (r # ys)"
      using log by (simp add: round_world_fields)
    have "clock w' - s <
        t + (max (last (r # ys)) 0 + int (oversleep e (length (sleeps w') - 1))) +
        int (drift e (clock_reads w' - 1))"
      using bound log' by (cases "ys = []") simp_all
    then show ?thesis
      using step rec late log' by auto
  qed
qed

section \<open>One call of \<open>tryLock\<close>\<close>

lemma LockFileEx_fields:
  "fst (LockFileEx e h w) = lock_result e (lock_calls w)"
  "open_fds (snd (LockFileEx e h w)) = open_fds w"
  "next_fd (snd (LockFileEx e h w)) = next_fd w"
  "open_calls (snd (LockFileEx e h w)) = open_calls w"
  "unlock_calls (snd (LockFileEx e h w)) = unlock_calls w"
  "close_calls (snd (LockFileEx e h w)) = close_calls w"
  "lock_calls (snd (LockFileEx e h w)) = Suc (lock_calls w)"
  "sleeps (snd (LockFileEx e h w)) = sleeps w"
  "clock (snd (LockFileEx e h w)) = clock w"
  "clock_reads (snd (LockFileEx e h w)) = clock_reads w"
  "held_fds (snd (LockFileEx e h w)) =
     (if lock_result e (lock_calls w) = None then insert h (held_fds w) else held_fds w)"
  by (simp_all add: LockFileEx_def Let_def)

lemma ten_ms_pos: "0 < Millisecond * 10"
  by (simp add: Millisecond_def)

lemma windows_tryLock_eq:
  "windows_tryLock e t h w =
     (if lock_result e (lock_calls w) \<noteq> Some ERROR_LOCK_VIOLATION
      then Some (map_option Errno (lock_result e (lock_calls w)), snd (LockFileEx e h w))
      else if t \<le> 0 then Some (Some ErrLockHeld, snd (LockFileEx e h w))
      else windows_tryLock_loop e t (clock w + int (drift e (clock_reads w))) (Millisecond * 10) h
             (read_world e (snd (LockFileEx e h w))))"
  by (auto simp add: windows_tryLock_def LockFileEx_def Let_def time_Now_eq read_world_fields)

lemma unix_tryLock_eq:
  "unix_tryLock e t h w =
     (if lock_result e (lock_calls w) \<noteq> Some EWOULDBLOCK
      then Some (map_option Errno (lock_result e (lock_calls w)), snd (LockFileEx e h w))
      else if t \<le> 0 then Some (Some ErrLockHeld, snd (LockFileEx e h w))
      else unix_tryLock_loop e t (clock w + int (drift e (clock_reads w))) (Millisecond * 10) h
             (read_world e (snd (LockFileEx e h w))))"
  by (auto simp add: unix_tryLock_def Flock_lock_eq LockFileEx_def Let_def time_Now_eq read_world_fields)

lemma tryLock_post_direct:
  "lock_result e (lock_calls w) \<noteq> Some c \<Longrightarrow>
   tryLock_post e t h c w (map_option Errno (lock_result e (lock_calls w))) (snd (LockFileEx e h w))"
  by (cases "lock_result e (lock_calls w)") (simp_all add: tryLock_post_def LockFileEx_fields)

lemma tryLock_post_held:
  "lock_result e (lock_calls w) = Some c \<Longrightarrow> t \<le> 0 \<Longrightarrow>
   tryLock_post e t h c w (Some ErrLockHeld) (snd (LockFileEx e h w))"
  by (simp add: tryLock_post_def LockFileEx_fields)

lemma tryLock_post_loop:
  "lock_result e (lock_calls w) = Some c \<Longrightarrow> 0 < t \<Longrightarrow>
   loop_post t (clock w + int (drift e (clock_reads w))) h c
     (read_world e (snd (LockFileEx e h w))) err w' \<Longrightarrow>
   tryLock_post e t h c w err w'"
  by (auto simp add: tryLock_post_def loop_post_def LockFileEx_fields read_world_fields)

lemma windows_tryLock_returns:
  "\<exists>err w'. windows_tryLock e t h w = Some (err, w') \<and>
     tryLock_post e t h ERROR_LOCK_VIOLATION w err w'"
proof (cases "lock_result e (lock_calls w) = Some ERROR_LOCK_VIOLATION")
  case False
  then show ?thesis
    by (simp add: windows_tryLock_eq tryLock_post_direct)
next
  case held: True
  show ?thesis
  proof (cases "t \<le> 0")
    case True
    then show ?thesis
      using held by (simp add: windows_tryLock_eq tryLock_post_held)
  next
    case False
    then have "0 < t" by simp
    obtain err w' where
      "windows_tryLock_loop e t (clock w + int (drift e (clock_reads w))) (Millisecond * 10) h
         (read_world e (snd (LockFileEx e h w))) = Some (err, w')"
      "loop_post t (clock w + int (drift e (clock_reads w))) h ERROR_LOCK_VIOLATION
         (read_world e (snd (LockFileEx e h w))) err w'"
      using windows_loop_returns [OF ten_ms_pos] by blast
    then show ?thesis
      using held False tryLock_post_loop [OF held \<open>0 < t\<close>]
      by (simp add: windows_tryLock_eq)
  qed
qed

lemma unix_tryLock_returns:
  "\<exists>err w'. unix_tryLock e t h w = Some (err, w') \<and> tryLock_post e t h EWOULDBLOCK w err w'"
proof (cases "lock_result e (lock_calls w) = Some EWOULDBLOCK")
  case False
  then show ?thesis
    by (simp add: unix_tryLock_eq tryLock_post_direct)
next
  case held: True
  show ?thesis
  proof (cases "t \<le> 0")
    case True
    then show ?thesis
      using held by (simp add: unix_tryLock_eq tryLock_post_held)
  next
    case False
    then have "0 < t" by simp
    obtain err w' where
      "unix_tryLock_loop e t (clock w + int (drift e (clock_reads w))) (Millisecond * 10) h
         (read_world e (snd (LockFileEx e h w))) = Some (err, w')"
      "loop_post t (clock w + int (drift e (clock_reads w))) h EWOULDBLOCK
         (read_world e (snd (LockFileEx e h w))) err w'"
      using unix_loop_returns [OF ten_ms_pos] by blast
    then show ?thesis
      using held False tryLock_post_loop [OF held \<open>0 < t\<close>]
      by (simp add: unix_tryLock_eq)
  qed
qed

section \<open>One call of \<open>LockWithTimeout\<close>\<close>

lemma os_OpenFile_fail:
  "open_result e (open_calls w) = Some n \<Longrightarrow>
   os_OpenFile e p w = (Inl (PathError n), w\<lparr>open_calls := Suc (open_calls w)\<rparr>)"
  by (simp add: os_OpenFile_def)

lemma os_OpenFile_ok:
  "open_result e (open_calls w) = None \<Longrightarrow> fst (os_OpenFile e p w) = Inr (next_fd w)"
  by (simp add: os_OpenFile_def)

lemma os_OpenFile_ok_fields:
  assumes "open_result e (open_calls w) = None"
  shows "open_fds (snd (os_OpenFile e p w)) = insert (next_fd w) (open_fds w)"
    "held_fds (snd (os_OpenFile e p w)) = held_fds w"
    "clock (snd (os_OpenFile e p w)) = clock w"
    "sleeps (snd (os_OpenFile e p w)) = sleeps w"
    "lock_calls (snd (os_OpenFile e p w)) = lock_calls w"
    "clock_reads (snd (os_OpenFile e p w)) = clock_reads w"
  using assms by (simp_all add: os_OpenFile_def)

lemma File_Close_fields:
  "open_fds (snd (File_Close e fd w)) = open_fds w - {fd}"
  "held_fds (snd (File_Close e fd w)) = held_fds w - {fd}"
  "clock (snd (File_Close e fd w)) = clock w"
  "sleeps (snd (File_Close e fd w)) = sleeps w"
  "lock_calls (snd (File_Close e fd w)) = lock_calls w"
  "clock_reads (snd (File_Close e fd w)) = clock_reads w"
  by (simp_all add: File_Close_def)

lemma lwt_post_open_fail:
  "open_result e (open_calls w) = Some n \<Longrightarrow>
   lwt_post e t fl w (Some (PathError n)) (fl\<lparr>file' := None\<rparr>) (w\<lparr>open_calls := Suc (open_calls w)\<rparr>)"
  by (simp add: lwt_post_def)

lemma os_OpenFile_opened:
  "open_result e (open_calls w) = None \<Longrightarrow>
   os_OpenFile e p w = (Inr (next_fd w), snd (os_OpenFile e p w))"
  by (simp add: os_OpenFile_def)

lemma lwt_post_acquired:
  "open_result e (open_calls w) = None \<Longrightarrow> w1 = snd (os_OpenFile e p w) \<Longrightarrow>
   tryLock_post e t (next_fd w) c w1 None w2 \<Longrightarrow>
   lwt_post e t fl w None (fl\<lparr>file' := Some (next_fd w), locked := True\<rparr>) w2"
  by (simp add: lwt_post_def tryLock_post_def os_OpenFile_ok_fields)

lemma lwt_post_failed:
  "open_result e (open_calls w) = None \<Longrightarrow> w1 = snd (os_OpenFile e p w) \<Longrightarrow>
   tryLock_post e t (next_fd w) c w1 (Some err) w2 \<Longrightarrow>
   lwt_post e t fl w (Some err) (fl\<lparr>file' := None\<rparr>) (snd (File_Close e (next_fd w) w2))"
  by (auto simp add: lwt_post_def tryLock_post_def os_OpenFile_ok_fields File_Close_fields)

lemma windows_LockWithTimeout_locked:
  "locked fl \<Longrightarrow> windows_LockWithTimeout e t fl w = Some (Some ErrAlreadyLocked, fl, w)"
  by (simp add: windows_LockWithTimeout_def)

lemma unix_LockWithTimeout_locked:
  "locked fl \<Longrightarrow> unix_LockWithTimeout e t fl w = Some (Some ErrAlreadyLocked, fl, w)"
  by (simp add: unix_LockWithTimeout_def)

lemma windows_LockWithTimeout_returns:
  assumes "\<not> locked fl"
  shows "\<exists>r fl' w'. windows_LockWithTimeout e t fl w = Some (r, fl', w') \<and> lwt_post e t fl w r fl' w'"
proof (cases "open_result e (open_calls w)")
  case (Some n)
  then show ?thesis
    using assms by (simp add: windows_LockWithTimeout_def os_OpenFile_fail lwt_post_open_fail)
next
  case ok: None
  define w1 where "w1 = snd (os_OpenFile e (path fl) w)"
  have opened: "os_OpenFile e (path fl) w = (Inr (next_fd w), w1)"
    unfolding w1_def by (rule os_OpenFile_opened [OF ok])
  obtain err w2 where
    tried: "windows_tryLock e t (next_fd w) w1 = Some (err, w2)" and
    post: "tryLock_post e t (next_fd w) ERROR_LOCK_VIOLATION w1 err w2"
    using windows_tryLock_returns by blast
  show ?thesis
  proof (cases err)
    case None
    then show ?thesis
      using assms opened tried lwt_post_acquired [OF ok w1_def] post
      by (simp add: windows_LockWithTimeout_def)
  next
    case (Some x)
    then show ?thesis
      using assms opened tried lwt_post_failed [OF ok w1_def] post
      by (simp add: windows_LockWithTimeout_def split_beta)
  qed
qed

lemma unix_LockWithTimeout_returns:
  assumes "\<not> locked fl"
  shows "\<exists>r fl' w'. unix_LockWithTimeout e t fl w = Some (r, fl', w') \<and> lwt_post e t fl w r fl' w'"
proof (cases "open_result e (open_calls w)")
  case (Some n)
  then show ?thesis
    using assms by (simp add: unix_LockWithTimeout_def os_OpenFile_fail lwt_post_open_fail)
next
  case ok: None
  define w1 where "w1 = snd (os_OpenFile e (path fl) w)"
  have opened: "os_OpenFile e (path fl) w = (Inr (next_fd w), w1)"
    unfolding w1_def by (rule os_OpenFile_opened [OF ok])
  obtain err w2 where
    tried: "unix_tryLock e t (next_fd w) w1 = Some (err, w2)" and
    post: "tryLock_post e t (next_fd w) EWOULDBLOCK w1 err w2"
    using unix_tryLock_returns by blast
  show ?thesis
  proof (cases err)
    case None
    then show ?thesis
      using assms opened tried lwt_post_acquired [OF ok w1_def] post
      by (simp add: unix_LockWithTimeout_def)
  next
    case (Some x)
    then show ?thesis
      using assms opened tried lwt_post_failed [OF ok w1_def] post
      by (simp add: unix_LockWithTimeout_def split_beta)
  qed
qed

lemma LockWithTimeout_locked:
  "locked fl \<Longrightarrow> LockWithTimeout pf e t fl w = Some (Some ErrAlreadyLocked, fl, w)"
  by (cases pf)
     (simp_all add: LockWithTimeout_def windows_LockWithTimeout_locked unix_LockWithTimeout_locked)

lemma LockWithTimeout_returns:
  "\<not> locked fl \<Longrightarrow>
   \<exists>r fl' w'. LockWithTimeout pf e t fl w = Some (r, fl', w') \<and> lwt_post e t fl w r fl' w'"
  by (cases pf)
     (simp_all add: LockWithTimeout_def windows_LockWithTimeout_returns unix_LockWithTimeout_returns)

lemma Lock_eq: "Lock pf e fl w = LockWithTimeout pf e 0 fl w"
  by (cases pf) (simp_all add: Lock_def LockWithTimeout_def windows_Lock_def unix_Lock_def)

section \<open>One call of \<open>Unlock\<close>\<close>

lemma unix_Unlock_eq: "unix_Unlock e fl w = windows_Unlock e fl w"
  by (simp add: unix_Unlock_def windows_Unlock_def Flock_unlock_eq)

lemma Unlock_not_locked:
  "\<not> locked fl \<or> file' fl = None \<Longrightarrow> Unlock pf e fl w = (Some ErrNotLocked, fl, w)"
  by (cases pf) (simp_all add: Unlock_def unix_Unlock_eq windows_Unlock_def)

lemma Unlock_release_fails:
  "locked fl \<Longrightarrow> file' fl = Some fd \<Longrightarrow> unlock_result e (unlock_calls w) = Some n \<Longrightarrow>
   Unlock pf e fl w = (Some (Errno n), fl, w\<lparr>unlock_calls := Suc (unlock_calls w)\<rparr>)"
  by (cases pf) (simp_all add: Unlock_def unix_Unlock_eq windows_Unlock_def UnlockFileEx_def)

lemma Unlock_released:
  "locked fl \<Longrightarrow> file' fl = Some fd \<Longrightarrow> unlock_result e (unlock_calls w) = None \<Longrightarrow>
   Unlock pf e fl w =
     (map_option PathError (close_result e (close_calls w)),
      fl\<lparr>file' := None, locked := False\<rparr>,
      w\<lparr>open_fds := open_fds w - {fd}, held_fds := held_fds w - {fd},
        unlock_calls := Suc (unlock_calls w), close_calls := Suc (close_calls w)\<rparr>)"
  by (cases pf)
     (simp_all add: Unlock_def unix_Unlock_eq windows_Unlock_def UnlockFileEx_def File_Close_def)

section \<open>Evaluation on concrete inputs\<close>

lemmas eval_defs =
  LockWithTimeout_def Lock_def Unlock_def windows_LockWithTimeout_def unix_LockWithTimeout_def
  windows_Lock_def unix_Lock_def windows_Unlock_def unix_Unlock_def
  windows_tryLock_def unix_tryLock_def windows_tryLock_loop.simps unix_tryLock_loop.simps
  os_OpenFile_def File_Close_def LockFileEx_def UnlockFileEx_def syscall_Flock_def
  time_Now_def time_Since_def time_Sleep_def Millisecond_def times_1_5_def
  New_def boot_def held_forever_def held_slow_def all_ok_def release_fails_def held_code_def
  locked_handle_def locked_world_def after_100ms_def after_300ms_def after_1ns_def Let_def

section \<open>The lock is never released\<close>

lemma windows_loop_held:
  assumes "\<And>k. lock_result e k = Some ERROR_LOCK_VIOLATION" and "0 < r"
    and "clock w - s < t + b"
  shows "\<exists>w' ys. windows_tryLock_loop e t s r h w = Some (Some ErrTimeout, w') \<and>
           t \<le> clock w' - s \<and> sleeps w' = sleeps w @ ys \<and>
           clock w' - s <
             t + (if ys = [] then b
                  else max (last ys) 0 + int (oversleep e (length (sleeps w') - 1))) +
             int (drift e (clock_reads w' - 1))"
  by (rule loop_held [where f = "\<lambda>r w. windows_tryLock_loop e t s r h w" and e = e
        and c = ERROR_LOCK_VIOLATION])
     (simp_all add: windows_loop_stop windows_loop_round assms)

lemma unix_loop_held:
  assumes "\<And>k. lock_result e k = Some EWOULDBLOCK" and "0 < r"
    and "clock w - s < t + b"
  shows "\<exists>w' ys. unix_tryLock_loop e t s r h w = Some (Some ErrTimeout, w') \<and>
           t \<le> clock w' - s \<and> sleeps w' = sleeps w @ ys \<and>
           clock w' - s <
             t + (if ys = [] then b
                  else max (last ys) 0 + int (oversleep e (length (sleeps w') - 1))) +
             int (drift e (clock_reads w' - 1))"
  by (rule loop_held [where f = "\<lambda>r w. unix_tryLock_loop e t s r h w" and e = e
        and c = EWOULDBLOCK])
     (simp_all add: unix_loop_stop unix_loop_round assms)

lemma last_sleep_append:
  "sleeps w' = sleeps w @ ys \<Longrightarrow>
   last_sleep e w w' =
     (if ys = [] then 0 else max (last ys) 0 + int (oversleep e (length (sleeps w') - 1)))"
  by (simp add: last_sleep_def)

lemma windows_tryLock_held:
  assumes held: "\<And>k. lock_result e k = Some ERROR_LOCK_VIOLATION" and pos: "0 < t"
  shows "\<exists>w'. windows_tryLock e t h w = Some (Some ErrTimeout, w') \<and>
           t \<le> clock w' - (clock w + int (drift e (clock_reads w))) \<and>
           clock w' - (clock w + int (drift e (clock_reads w))) <
             t + last_sleep e w w' + int (drift e (clock_reads w' - 1))"
proof -
  let ?s = "clock w + int (drift e (clock_reads w))"
  let ?w2 = "read_world e (snd (LockFileEx e h w))"
  have eq: "windows_tryLock e t h w = windows_tryLock_loop e t ?s (Millisecond * 10) h ?w2"
    using held pos by (simp add: windows_tryLock_eq)
  have entry: "clock ?w2 - ?s < t + 0"
    using pos by (simp add: read_world_fields LockFileEx_fields)
  obtain w' ys where
    ret: "windows_tryLock_loop e t ?s (Millisecond * 10) h ?w2 = Some (Some ErrTimeout, w')" and
    late: "t \<le> clock w' - ?s" and
    log: "sleeps w' = sleeps ?w2 @ ys" and
    bound: "clock w' - ?s <
             t + (if ys = [] then 0
                  else max (last ys) 0 + int (oversleep e (length (sleeps w') - 1))) +
             int (drift e (clock_reads w' - 1))"
    using windows_loop_held [OF held ten_ms_pos entry] by blast
  have "sleeps w' = sleeps w @ ys"
    using log by (simp add: read_world_fields LockFileEx_fields)
  then have "clock w' - ?s < t + last_sleep e w w' + int (drift e (clock_reads w' - 1))"
    using bound by (simp add: last_sleep_append)
  then show ?thesis
    using eq ret late by simp
qed

lemma windows_LockWithTimeout_held:
  assumes held: "\<And>k. lock_result e k = Some ERROR_LOCK_VIOLATION" and pos: "0 < t"
    and unlocked: "\<not> locked fl" and ok: "open_result e (open_calls w) = None"
  shows "\<exists>fl' w'. windows_LockWithTimeout e t fl w = Some (Some ErrTimeout, fl', w') \<and>
           t \<le> clock w' - (clock w + int (drift e (clock_reads w))) \<and>
           clock w' - (clock w + int (drift e (clock_reads w))) <
             t + last_sleep e w w' + int (drift e (clock_reads w' - 1))"
proof -
  define w1 where "w1 = snd (os_OpenFile e (path fl) w)"
  have opened: "os_OpenFile e (path fl) w = (Inr (next_fd w), w1)"
    unfolding w1_def by (rule os_OpenFile_opened [OF ok])
  have w1: "clock w1 = clock w" "sleeps w1 = sleeps w" "clock_reads w1 = clock_reads w"
    unfolding w1_def by (simp_all add: os_OpenFile_ok_fields [OF ok])
  obtain w2 where
    tried: "windows_tryLock e t (next_fd w) w1 = Some (Some ErrTimeout, w2)" and
    facts: "t \<le> clock w2 - (clock w1 + int (drift e (clock_reads w1)))"
      "clock w2 - (clock w1 + int (drift e (clock_reads w1))) <
         t + last_sleep e w1 w2 + int (drift e (clock_reads w2 - 1))"
    using windows_tryLock_held [OF held pos, of "next_fd w" w1] by blast
  have "windows_LockWithTimeout e t fl w =
      Some (Some ErrTimeout, fl\<lparr>file' := None\<rparr>, snd (File_Close e (next_fd w) w2))"
    using unlocked opened tried by (simp add: windows_LockWithTimeout_def split_beta)
  moreover have "last_sleep e w (snd (File_Close e (next_fd w) w2)) = last_sleep e w1 w2"
    using w1 by (simp add: last_sleep_def File_Close_fields)
  ultimately show ?thesis
    using facts w1 by (simp add: File_Close_fields)
qed

lemma unix_tryLock_held:
  assumes held: "\<And>k. lock_result e k = Some EWOULDBLOCK" and pos: "0 < t"
  shows "\<exists>w'. unix_tryLock e t h w = Some (Some ErrTimeout, w') \<and>
           t \<le> clock w' - (clock w + int (drift e (clock_reads w))) \<and>
           clock w' - (clock w + int (drift e (clock_reads w))) <
             t + last_sleep e w w' + int (drift e (clock_reads w' - 1))"
proof -
  let ?s = "clock w + int (drift e (clock_reads w))"
  let ?w2 = "read_world e (snd (LockFileEx e h w))"
  have eq: "unix_tryLock e t h w = unix_tryLock_loop e t ?s (Millisecond * 10) h ?w2"
    using held pos by (simp add: unix_tryLock_eq)
  have entry: "clock ?w2 - ?s < t + 0"
    using pos by (simp add: read_world_fields LockFileEx_fields)
  obtain w' ys where
    ret: "unix_tryLock_loop e t ?s (Millisecond * 10) h ?w2 = Some (Some ErrTimeout, w')" and
    late: "t \<le> clock w' - ?s" and
    log: "sleeps w' = sleeps ?w2 @ ys" and
    bound: "clock w' - ?s <
             t + (if ys = [] then 0
                  else max (last ys) 0 + int (oversleep e (length (sleeps w') - 1))) +
             int (drift e (clock_reads w' - 1))"
    using unix_loop_held [OF held ten_ms_pos entry] by blast
  have "sleeps w' = sleeps w @ ys"
    using log by (simp add: read_world_fields LockFileEx_fields)
  then have "clock w' - ?s < t + last_sleep e w w' + int (drift e (clock_reads w' - 1))"
    using bound by (simp add: last_sleep_append)
  then show ?thesis
    using eq ret late by simp
qed

lemma unix_LockWithTimeout_held:
  assumes held: "\<And>k. lock_result e k = Some EWOULDBLOCK" and pos: "0 < t"
    and unlocked: "\<not> locked fl" and ok: "open_result e (open_calls w) = None"
  shows "\<exists>fl' w'. unix_LockWithTimeout e t fl w = Some (Some ErrTimeout, fl', w') \<and>
           t \<le> clock w' - (clock w + int (drift e (clock_reads w))) \<and>
           clock w' - (clock w + int (drift e (clock_reads w))) <
             t + last_sleep e w w' + int (drift e (clock_reads w' - 1))"
proof -
  define w1 where "w1 = snd (os_OpenFile e (path fl) w)"
  have opened: "os_OpenFile e (path fl) w = (Inr (next_fd w), w1)"
    unfolding w1_def by (rule os_OpenFile_opened [OF ok])
  have w1: "clock w1 = clock w" "sleeps w1 = sleeps w" "clock_reads w1 = clock_reads w"
    unfolding w1_def by (simp_all add: os_OpenFile_ok_fields [OF ok])
  obtain w2 where
    tried: "unix_tryLock e t (next_fd w) w1 = Some (Some ErrTimeout, w2)" and
    facts: "t \<le> clock w2 - (clock w1 + int (drift e (clock_reads w1)))"
      "clock w2 - (clock w1 + int (drift e (clock_reads w1))) <
         t + last_sleep e w1 w2 + int (drift e (clock_reads w2 - 1))"
    using unix_tryLock_held [OF held pos, of "next_fd w" w1] by blast
  have "unix_LockWithTimeout e t fl w =
      Some (Some ErrTimeout, fl\<lparr>file' := None\<rparr>, snd (File_Close e (next_fd w) w2))"
    using unlocked opened tried by (simp add: unix_LockWithTimeout_def split_beta)
  moreover have "last_sleep e w (snd (File_Close e (next_fd w) w2)) = last_sleep e w1 w2"
    using w1 by (simp add: last_sleep_def File_Close_fields)
  ultimately show ?thesis
    using facts w1 by (simp add: File_Close_fields)
qed

lemma LockWithTimeout_held:
  assumes "\<And>k. lock_result e k = Some (held_code pf)" and "0 < t"
    and "\<not> locked fl" and "open_result e (open_calls w) = None"
  shows "\<exists>fl' w'. LockWithTimeout pf e t fl w = Some (Some ErrTimeout, fl', w') \<and>
           t \<le> clock w' - (clock w + int (drift e (clock_reads w))) \<and>
           clock w' - (clock w + int (drift e (clock_reads w))) <
             t + last_sleep e w w' + int (drift e (clock_reads w' - 1))"
proof (cases pf)
  case Windows
  then show ?thesis
    using windows_LockWithTimeout_held [of e t fl w] assms
    by (simp add: LockWithTimeout_def held_code_def)
next
  case Unix
  then show ?thesis
    using unix_LockWithTimeout_held [of e t fl w] assms
    by (simp add: LockWithTimeout_def held_code_def)
qed

text \<open>Contention on a call that does not wait.\<close>

lemma LockWithTimeout_contended:
  assumes unlocked: "\<not> locked fl" and ok: "open_result e (open_calls w) = None"
    and held: "lock_result e (lock_calls w) = Some (held_code pf)" and "t \<le> 0"
  shows "\<exists>w'. LockWithTimeout pf e t fl w = Some (Some ErrLockHeld, fl\<lparr>file' := None\<rparr>, w')"
proof -
  define w1 where "w1 = snd (os_OpenFile e (path fl) w)"
  have opened: "os_OpenFile e (path fl) w = (Inr (next_fd w), w1)"
    unfolding w1_def by (rule os_OpenFile_opened [OF ok])
  have calls: "lock_calls w1 = lock_calls w"
    unfolding w1_def by (simp add: os_OpenFile_ok_fields [OF ok])
  show ?thesis
    using unlocked opened calls held \<open>t \<le> 0\<close>
    by (cases pf)
       (simp_all add: LockWithTimeout_def windows_LockWithTimeout_def unix_LockWithTimeout_def
          windows_tryLock_eq unix_tryLock_eq held_code_def split_beta)
qed

section \<open>Sequences of calls\<close>

lemma lwt_post_invariant:
  "\<not> locked fl \<Longrightarrow> state_invariant fl w \<Longrightarrow> lwt_post e t fl w r fl' w' \<Longrightarrow> state_invariant fl' w'"
  by (cases "open_result e (open_calls w)")
     (auto simp add: lwt_post_def state_invariant_def split: if_splits)

lemma LockWithTimeout_invariant:
  assumes "state_invariant fl w"
  shows "\<exists>r fl' w'. LockWithTimeout pf e t fl w = Some (r, fl', w') \<and> state_invariant fl' w'"
proof (cases "locked fl")
  case True
  then show ?thesis
    using assms by (simp add: LockWithTimeout_locked)
next
  case False
  then show ?thesis
    using LockWithTimeout_returns [OF False, of pf e t w] lwt_post_invariant [OF False assms]
    by blast
qed

lemma Unlock_invariant:
  assumes "state_invariant fl w"
  shows "state_invariant (fst (snd (Unlock pf e fl w))) (snd (snd (Unlock pf e fl w)))"
proof (cases "\<not> locked fl \<or> file' fl = None")
  case True
  then show ?thesis
    using assms by (simp add: Unlock_not_locked)
next
  case False
  then obtain fd where fd: "locked fl" "file' fl = Some fd" by auto
  show ?thesis
  proof (cases "unlock_result e (unlock_calls w)")
    case None
    then show ?thesis
      by (simp add: Unlock_released [OF fd] state_invariant_def)
  next
    case (Some n)
    then show ?thesis
      using assms fd by (simp add: Unlock_release_fails [OF fd] state_invariant_def)
  qed
qed

lemma step_invariant:
  assumes "state_invariant fl w"
  shows "\<exists>fl' w'. step pf e c (fl, w) = Some (fl', w') \<and> state_invariant fl' w'"
proof (cases c)
  case CallLock
  then show ?thesis
    using LockWithTimeout_invariant [OF assms, of pf e 0] by (auto simp add: step_def Lock_eq)
next
  case (CallLockWithTimeout t)
  then show ?thesis
    using LockWithTimeout_invariant [OF assms, of pf e t] by (auto simp add: step_def)
next
  case CallUnlock
  then show ?thesis
    using Unlock_invariant [OF assms, of pf e] by (simp add: step_def prod_eq_iff)
qed

lemma run_invariant:
  "state_invariant fl w \<Longrightarrow>
   \<exists>fl' w'. run pf e cs (fl, w) = Some (fl', w') \<and> state_invariant fl' w'"
proof (induction cs arbitrary: fl w)
  case Nil
  then show ?case by simp
next
  case (Cons c cs)
  obtain fl1 w1 where
    one: "step pf e c (fl, w) = Some (fl1, w1)" and inv: "state_invariant fl1 w1"
    using step_invariant [OF Cons.prems] by blast
  show ?case
    using Cons.IH [OF inv] one by simp
qed

lemma New_invariant: "state_invariant (New p) w"
  by (simp add: New_def state_invariant_def)

section \<open>Properties of the specification\<close>

text \<open>
  C1.  In the locked state, a failing release makes \<open>Unlock\<close> return that error and leave
  the handle as it was: still locked, the descriptor open and the lock held.  Only when
  the release succeeds is the descriptor closed and \<open>locked\<close> cleared, whatever closing
  reports; \<open>Unlock\<close> then returns the result of closing.
\<close>

theorem Unlock_release_error_keeps_state:
  assumes "locked fl" and "file' fl = Some fd"
  shows "(\<forall>n. unlock_result e (unlock_calls w) = Some n \<longrightarrow>
            Unlock pf e fl w = (Some (Errno n), fl, w\<lparr>unlock_calls := Suc (unlock_calls w)\<rparr>)) \<and>
         (unlock_result e (unlock_calls w) = None \<longrightarrow>
            Unlock pf e fl w =
              (map_option PathError (close_result e (close_calls w)),
               fl\<lparr>file' := None, locked := False\<rparr>,
               w\<lparr>open_fds := open_fds w - {fd}, held_fds := held_fds w - {fd},
                 unlock_calls := Suc (unlock_calls w), close_calls := Suc (close_calls w)\<rparr>))"
  using Unlock_release_fails [OF assms] Unlock_released [OF assms] by blast

theorem Unlock_release_error_keeps_state_witness:
  "locked locked_handle \<and> file' locked_handle = Some 0 \<and>
   unlock_result release_fails (unlock_calls locked_world) = Some 158 \<and>
   Unlock Unix release_fails locked_handle locked_world =
     (Some (Errno 158), locked_handle, locked_world\<lparr>unlock_calls := 1\<rparr>) \<and>
   unlock_result all_ok (unlock_calls locked_world) = None \<and>
   Unlock Windows all_ok locked_handle locked_world =
     (None, New ''a.lock'',
      boot\<lparr>next_fd := 1, open_calls := 1, lock_calls := 1, unlock_calls := 1, close_calls := 1\<rparr>)"
  using Unlock_release_error_keeps_state [of locked_handle 0 release_fails locked_world Unix]
    Unlock_release_error_keeps_state [of locked_handle 0 all_ok locked_world Windows]
  by (simp add: locked_handle_def locked_world_def release_fails_def all_ok_def New_def boot_def)

text \<open>
  C1 as stated fails: after a successful \<open>Lock\<close>, an \<open>Unlock\<close> whose release fails leaves
  the handle locked and its descriptor open, on either platform.
\<close>

theorem Unlock_release_error_counterexample:
  "Lock Windows release_fails (New ''a.lock'') boot = Some (None, locked_handle, locked_world) \<and>
   Unlock Windows release_fails locked_handle locked_world =
     (Some (Errno 158), locked_handle, locked_world\<lparr>unlock_calls := 1\<rparr>) \<and>
   Unlock Unix release_fails locked_handle locked_world =
     (Some (Errno 158), locked_handle, locked_world\<lparr>unlock_calls := 1\<rparr>) \<and>
   locked locked_handle \<and> file' locked_handle = Some 0 \<and>
   0 \<in> open_fds (locked_world\<lparr>unlock_calls := 1\<rparr>)"
  by (simp add: eval_defs)

text \<open>
  C2.  Against a lock that is never released, a \<open>LockWithTimeout\<close> of 300 milliseconds
  sleeps seven times; the seventh interval is 113.90625 milliseconds, above the cap of 100
  milliseconds that the comment in the loop announces.
\<close>

theorem backoff_interval_exceeds_cap:
  "LockWithTimeout Windows (held_forever Windows) (300 * Millisecond) (New ''a.lock'') boot =
     Some (Some ErrTimeout, New ''a.lock'', after_300ms) \<and>
   LockWithTimeout Unix (held_forever Unix) (300 * Millisecond) (New ''a.lock'') boot =
     Some (Some ErrTimeout, New ''a.lock'', after_300ms) \<and>
   sleeps after_300ms =
     [10000000, 15000000, 22500000, 33750000, 50625000, 75937500, 113906250] \<and>
   Millisecond * 100 < last (sleeps after_300ms)"
  by (simp add: eval_defs)

text \<open>
  C3.  \<open>LockWithTimeout\<close> returns \<open>ErrTimeout\<close> only for a positive timeout and only when
  at least the timeout has elapsed since the start time of the retry loop was read.
  Against a lock that is never released, with a positive timeout, it does return
  \<open>ErrTimeout\<close>, and the time elapsed by then is less than the timeout plus the time
  between the last two deadline tests: the last backoff sleep, if there was one, with what
  it overran, and what passed outside sleeps before the last reading of the clock.
\<close>

theorem timeout_elapsed_bounds:
  "(LockWithTimeout pf e t fl w = Some (Some ErrTimeout, fl', w') \<longrightarrow>
      0 < t \<and> t \<le> clock w' - (clock w + int (drift e (clock_reads w)))) \<and>
   ((\<forall>k. lock_result e k = Some (held_code pf)) \<and> 0 < t \<and> \<not> locked fl \<and>
    open_result e (open_calls w) = None \<longrightarrow>
      (\<exists>fl' w'. LockWithTimeout pf e t fl w = Some (Some ErrTimeout, fl', w') \<and>
         t \<le> clock w' - (clock w + int (drift e (clock_reads w))) \<and>
         clock w' - (clock w + int (drift e (clock_reads w))) <
           t + last_sleep e w w' + int (drift e (clock_reads w' - 1))))"
proof -
  have "0 < t \<and> t \<le> clock w' - (clock w + int (drift e (clock_reads w)))"
    if ret: "LockWithTimeout pf e t fl w = Some (Some ErrTimeout, fl', w')"
  proof -
    have unlocked: "\<not> locked fl"
      using ret by (auto simp add: LockWithTimeout_locked)
    have "lwt_post e t fl w (Some ErrTimeout) fl' w'"
      using LockWithTimeout_returns [OF unlocked, of pf e t w] ret by auto
    then show ?thesis
      by (cases "open_result e (open_calls w)") (auto simp add: lwt_post_def)
  qed
  then show ?thesis
    using LockWithTimeout_held [of e pf t fl w] by blast
qed

theorem timeout_elapsed_bounds_witness:
  "LockWithTimeout Unix (held_forever Unix) (100 * Millisecond) (New ''a.lock'') boot =
     Some (Some ErrTimeout, New ''a.lock'', after_100ms) \<and>
   (0::int) < 100 * Millisecond \<and>
   100 * Millisecond \<le>
     clock after_100ms - (clock boot + int (drift (held_forever Unix) (clock_reads boot))) \<and>
   lock_result (held_forever Unix) 7 = Some (held_code Unix) \<and> \<not> locked (New ''a.lock'') \<and>
   open_result (held_forever Unix) (open_calls boot) = None \<and>
   last_sleep (held_forever Unix) boot after_100ms = 50625000 \<and>
   clock after_100ms - (clock boot + int (drift (held_forever Unix) (clock_reads boot))) <
     100 * Millisecond + last_sleep (held_forever Unix) boot after_100ms +
     int (drift (held_forever Unix) (clock_reads after_100ms - 1)) \<and>
   LockWithTimeout Windows (held_slow Windows) 1 (New ''a.lock'') boot =
     Some (Some ErrTimeout, New ''a.lock'', after_1ns) \<and>
   lock_result (held_slow Windows) 0 = Some (held_code Windows) \<and>
   open_result (held_slow Windows) (open_calls boot) = None \<and>
   sleeps after_1ns = [] \<and> last_sleep (held_slow Windows) boot after_1ns = 0 \<and>
   (1::int) \<le>
     clock after_1ns - (clock boot + int (drift (held_slow Windows) (clock_reads boot))) \<and>
   clock after_1ns - (clock boot + int (drift (held_slow Windows) (clock_reads boot))) <
     1 + last_sleep (held_slow Windows) boot after_1ns +
     int (drift (held_slow Windows) (clock_reads after_1ns - 1))"
proof -
  have ideal: "LockWithTimeout Unix (held_forever Unix) (100 * Millisecond) (New ''a.lock'') boot =
      Some (Some ErrTimeout, New ''a.lock'', after_100ms)"
    by (simp add: eval_defs)
  have slow: "LockWithTimeout Windows (held_slow Windows) 1 (New ''a.lock'') boot =
      Some (Some ErrTimeout, New ''a.lock'', after_1ns)"
    by (simp add: eval_defs)
  have held: "\<forall>k. lock_result (held_slow Windows) k = Some (held_code Windows)"
    by (simp add: held_slow_def)
  have unlocked: "\<not> locked (New ''a.lock'')"
    by (simp add: New_def)
  have ok: "open_result (held_slow Windows) (open_calls boot) = None"
    by (simp add: held_slow_def)
  show ?thesis
    using timeout_elapsed_bounds
      [of Unix "held_forever Unix" "100 * Millisecond" "New ''a.lock''" boot "New ''a.lock''"
        after_100ms]
      timeout_elapsed_bounds
      [of Windows "held_slow Windows" 1 "New ''a.lock''" boot "New ''a.lock''" after_1ns]
      ideal slow held unlocked ok
    by (simp add: last_sleep_def after_100ms_def after_1ns_def boot_def held_forever_def
          held_slow_def held_code_def Millisecond_def)
qed

text \<open>
  C3 as stated fails: with sleeps of exactly the requested length and no time lost outside
  them, a timeout of 100 milliseconds is reported after 131.875 milliseconds, not by
  about 115.
\<close>

theorem timeout_100ms_counterexample:
  "LockWithTimeout Windows (held_forever Windows) (100 * Millisecond) (New ''a.lock'') boot =
     Some (Some ErrTimeout, New ''a.lock'', after_100ms) \<and>
   LockWithTimeout Unix (held_forever Unix) (100 * Millisecond) (New ''a.lock'') boot =
     Some (Some ErrTimeout, New ''a.lock'', after_100ms) \<and>
   clock after_100ms - clock boot = 131875000 \<and>
   115 * Millisecond < clock after_100ms - clock boot"
  by (simp add: eval_defs)

text \<open>
  C4.  Every \<open>LockWithTimeout\<close> returns, and a failing one returns \<open>ErrAlreadyLocked\<close>,
  \<open>ErrLockHeld\<close> (only for a duration that is not positive), \<open>ErrTimeout\<close> (only for a
  positive duration) or an error passed through from the operating system.
\<close>

theorem LockWithTimeout_failure_kinds:
  "\<exists>r fl' w'. LockWithTimeout pf e t fl w = Some (r, fl', w') \<and>
     (r = None \<or> r = Some ErrAlreadyLocked \<or> (r = Some ErrLockHeld \<and> t \<le> 0) \<or>
      (r = Some ErrTimeout \<and> 0 < t) \<or> (\<exists>x. r = Some x \<and> is_os_error x))"
proof (cases "locked fl")
  case True
  then show ?thesis
    by (simp add: LockWithTimeout_locked)
next
  case False
  obtain r fl' w' where
    ret: "LockWithTimeout pf e t fl w = Some (r, fl', w')" and post: "lwt_post e t fl w r fl' w'"
    using LockWithTimeout_returns [OF False] by blast
  have "r = None \<or> (r = Some ErrLockHeld \<and> t \<le> 0) \<or> (r = Some ErrTimeout \<and> 0 < t) \<or>
      (\<exists>x. r = Some x \<and> is_os_error x)"
    using post
    by (cases "open_result e (open_calls w)")
       (auto simp add: lwt_post_def is_os_error_def split: if_splits)
  then show ?thesis
    using ret by auto
qed

theorem LockWithTimeout_failure_kinds_witness:
  "\<exists>fl' w'. LockWithTimeout Windows (held_forever Windows) 0 (New ''a.lock'') boot =
      Some (Some ErrLockHeld, fl', w')"
  using LockWithTimeout_failure_kinds [of Windows "held_forever Windows" 0 "New ''a.lock''" boot]
  by (simp add: eval_defs)

text \<open>
  C4 as stated fails: with duration 0 against a held lock the error is \<open>ErrLockHeld\<close>, which
  is none of \<open>ErrAlreadyLocked\<close>, \<open>ErrTimeout\<close> and the errors of the operating system.
\<close>

theorem LockWithTimeout_zero_counterexample:
  "LockWithTimeout Windows (held_forever Windows) 0 (New ''a.lock'') boot =
     Some (Some ErrLockHeld, New ''a.lock'',
           boot\<lparr>next_fd := 1, open_calls := 1, lock_calls := 1, close_calls := 1\<rparr>) \<and>
   LockWithTimeout Unix (held_forever Unix) 0 (New ''a.lock'') boot =
     Some (Some ErrLockHeld, New ''a.lock'',
           boot\<lparr>next_fd := 1, open_calls := 1, lock_calls := 1, close_calls := 1\<rparr>) \<and>
   ErrLockHeld \<noteq> ErrAlreadyLocked \<and> ErrLockHeld \<noteq> ErrTimeout \<and> \<not> is_os_error ErrLockHeld"
  by (simp add: eval_defs is_os_error_def)

text \<open>
  C5.  When the file has been opened and \<open>LockWithTimeout\<close> fails, the descriptor just
  opened is closed again, the handle has no descriptor and is not locked; and the handle
  is locked afterwards only with the descriptor open and the lock held on it.
\<close>

theorem LockWithTimeout_failure_closes:
  assumes "\<not> locked fl" and "open_result e (open_calls w) = None"
  shows "\<exists>r fl' w'. LockWithTimeout pf e t fl w = Some (r, fl', w') \<and>
           (r \<noteq> None \<longrightarrow>
              \<not> locked fl' \<and> file' fl' = None \<and>
              next_fd w \<notin> open_fds w' \<and> next_fd w \<notin> held_fds w' \<and>
              (r = Some ErrLockHeld \<or> r = Some ErrTimeout \<or> (\<exists>n. r = Some (Errno n)))) \<and>
           (locked fl' \<longrightarrow>
              r = None \<and> file' fl' = Some (next_fd w) \<and>
              next_fd w \<in> open_fds w' \<and> next_fd w \<in> held_fds w')"
proof -
  obtain r fl' w' where
    ret: "LockWithTimeout pf e t fl w = Some (r, fl', w')" and post: "lwt_post e t fl w r fl' w'"
    using LockWithTimeout_returns [OF assms(1)] by blast
  have "(r \<noteq> None \<longrightarrow>
              \<not> locked fl' \<and> file' fl' = None \<and>
              next_fd w \<notin> open_fds w' \<and> next_fd w \<notin> held_fds w' \<and>
              (r = Some ErrLockHeld \<or> r = Some ErrTimeout \<or> (\<exists>n. r = Some (Errno n)))) \<and>
           (locked fl' \<longrightarrow>
              r = None \<and> file' fl' = Some (next_fd w) \<and>
              next_fd w \<in> open_fds w' \<and> next_fd w \<in> held_fds w')"
    using post assms by (auto simp add: lwt_post_def split: if_splits)
  then show ?thesis
    using ret by blast
qed

theorem LockWithTimeout_failure_closes_witness:
  "\<not> locked (New ''a.lock'') \<and> open_result (held_forever Windows) (open_calls boot) = None \<and>
   (\<exists>fl' w'. LockWithTimeout Windows (held_forever Windows) (100 * Millisecond) (New ''a.lock'') boot =
        Some (Some ErrTimeout, fl', w') \<and>
      \<not> locked fl' \<and> file' fl' = None \<and> next_fd boot \<notin> open_fds w') \<and>
   \<not> locked (New ''a.lock'') \<and> open_result all_ok (open_calls boot) = None \<and>
   (\<exists>fl' w'. LockWithTimeout Unix all_ok 0 (New ''a.lock'') boot = Some (None, fl', w') \<and>
      locked fl' \<and> file' fl' = Some (next_fd boot) \<and> next_fd boot \<in> held_fds w')"
  using
    LockWithTimeout_failure_closes
      [of "New ''a.lock''" "held_forever Windows" boot Windows "100 * Millisecond"]
    LockWithTimeout_failure_closes [of "New ''a.lock''" all_ok boot Unix 0]
  by (simp add: eval_defs)

text \<open>
  C6.  From a new handle, every sequence of \<open>Lock\<close>, \<open>LockWithTimeout\<close> and \<open>Unlock\<close>
  calls runs to its end, and after each call of it the invariant holds: a locked handle
  has a descriptor that is open and holds the lock, an unlocked handle has no descriptor.
\<close>

theorem invariant_after_each_call:
  "\<exists>fl' w'. run pf e (take n cs) (New p, w) = Some (fl', w') \<and> state_invariant fl' w'"
  by (rule run_invariant [OF New_invariant])

theorem invariant_after_each_call_witness:
  "run Windows all_ok (take 1 [CallLock, CallUnlock]) (New ''a.lock'', boot) =
     Some (locked_handle, locked_world) \<and>
   state_invariant locked_handle locked_world \<and> locked locked_handle \<and>
   (\<exists>w'. run Unix release_fails (take 3 [CallLock, CallLockWithTimeout 5, CallUnlock])
            (New ''a.lock'', boot) = Some (locked_handle, w') \<and>
      state_invariant locked_handle w') \<and>
   (\<exists>w'. run Unix all_ok (take 2 [CallLock, CallUnlock, CallUnlock]) (New ''a.lock'', boot) =
            Some (New ''a.lock'', w') \<and>
      state_invariant (New ''a.lock'') w' \<and> \<not> locked (New ''a.lock''))"
  using
    invariant_after_each_call [of Windows all_ok 1 "[CallLock, CallUnlock]" "''a.lock''" boot]
    invariant_after_each_call
      [of Unix release_fails 3 "[CallLock, CallLockWithTimeout 5, CallUnlock]" "''a.lock''" boot]
    invariant_after_each_call
      [of Unix all_ok 2 "[CallLock, CallUnlock, CallUnlock]" "''a.lock''" boot]
  by (simp add: eval_defs step_def state_invariant_def)

text \<open>
  C7.  \<open>Lock\<close>, and \<open>LockWithTimeout\<close> with a timeout that is not positive, return without
  a sleep and without a look at the clock, after at most one attempt on the lock; the result
  is success, \<open>ErrAlreadyLocked\<close>, \<open>ErrLockHeld\<close> or an error of the operating system.
\<close>

theorem nonblocking_never_sleeps:
  assumes "t \<le> 0"
  shows "(\<exists>r fl' w'. LockWithTimeout pf e t fl w = Some (r, fl', w') \<and>
            sleeps w' = sleeps w \<and> clock w' = clock w \<and> lock_calls w' \<le> Suc (lock_calls w) \<and>
            (r = None \<or> r = Some ErrAlreadyLocked \<or> r = Some ErrLockHeld \<or>
             (\<exists>x. r = Some x \<and> is_os_error x))) \<and>
         (\<exists>r fl' w'. Lock pf e fl w = Some (r, fl', w') \<and>
            sleeps w' = sleeps w \<and> clock w' = clock w \<and> lock_calls w' \<le> Suc (lock_calls w) \<and>
            (r = None \<or> r = Some ErrAlreadyLocked \<or> r = Some ErrLockHeld \<or>
             (\<exists>x. r = Some x \<and> is_os_error x)))"
proof -
  have one: "\<exists>r fl' w'. LockWithTimeout pf e d fl w = Some (r, fl', w') \<and>
            sleeps w' = sleeps w \<and> clock w' = clock w \<and> lock_calls w' \<le> Suc (lock_calls w) \<and>
            (r = None \<or> r = Some ErrAlreadyLocked \<or> r = Some ErrLockHeld \<or>
             (\<exists>x. r = Some x \<and> is_os_error x))" if "d \<le> 0" for d
  proof (cases "locked fl")
    case True
    then show ?thesis
      by (simp add: LockWithTimeout_locked)
  next
    case False
    obtain r fl' w' where
      ret: "LockWithTimeout pf e d fl w = Some (r, fl', w')" and
      post: "lwt_post e d fl w r fl' w'"
      using LockWithTimeout_returns [OF False] by blast
    have "sleeps w' = sleeps w \<and> clock w' = clock w \<and> lock_calls w' \<le> Suc (lock_calls w)"
      using post that by (simp add: lwt_post_def)
    moreover have "r = None \<or> r = Some ErrLockHeld \<or> (\<exists>x. r = Some x \<and> is_os_error x)"
      using post that
      by (cases "open_result e (open_calls w)")
         (auto simp add: lwt_post_def is_os_error_def split: if_splits)
    ultimately show ?thesis
      using ret by auto
  qed
  show ?thesis
    using one [OF assms] one [of 0] by (simp add: Lock_eq)
qed

theorem nonblocking_never_sleeps_witness:
  "(-5::int) \<le> 0 \<and>
   LockWithTimeout Windows (held_forever Windows) (-5) (New ''a.lock'') boot =
     Some (Some ErrLockHeld, New ''a.lock'',
           boot\<lparr>next_fd := 1, open_calls := 1, lock_calls := 1, close_calls := 1\<rparr>) \<and>
   Lock Unix (held_forever Unix) (New ''a.lock'') boot =
     Some (Some ErrLockHeld, New ''a.lock'',
           boot\<lparr>next_fd := 1, open_calls := 1, lock_calls := 1, close_calls := 1\<rparr>)"
  using nonblocking_never_sleeps [of "-5" Windows "held_forever Windows" "New ''a.lock''" boot]
    nonblocking_never_sleeps [of "-5" Unix "held_forever Unix" "New ''a.lock''" boot]
  by (simp add: eval_defs)

text \<open>
  C8.  On a handle whose \<open>locked\<close> flag is set, \<open>Lock\<close> and \<open>LockWithTimeout\<close> return
  \<open>ErrAlreadyLocked\<close> and change neither the handle nor the world.
\<close>

theorem second_lock_already_locked:
  assumes "locked fl"
  shows "Lock pf e fl w = Some (Some ErrAlreadyLocked, fl, w) \<and>
         LockWithTimeout pf e t fl w = Some (Some ErrAlreadyLocked, fl, w)"
  using assms by (simp add: Lock_eq LockWithTimeout_locked)

theorem second_lock_already_locked_witness:
  "locked locked_handle \<and>
   Lock Windows (held_forever Windows) locked_handle locked_world =
     Some (Some ErrAlreadyLocked, locked_handle, locked_world) \<and>
   LockWithTimeout Unix all_ok (100 * Millisecond) locked_handle locked_world =
     Some (Some ErrAlreadyLocked, locked_handle, locked_world)"
  using second_lock_already_locked [of locked_handle Windows "held_forever Windows" locked_world]
    second_lock_already_locked [of locked_handle Unix all_ok locked_world "100 * Millisecond"]
  by (simp add: locked_handle_def)

text \<open>
  C9.  \<open>Lock\<close> returns what \<open>LockWithTimeout\<close> with duration 0 returns, result, handle and
  world, from every handle and in every environment.
\<close>

theorem Lock_is_LockWithTimeout_zero:
  "Lock pf e fl w = LockWithTimeout pf e 0 fl w"
  by (cases pf) (simp_all add: Lock_def LockWithTimeout_def windows_Lock_def unix_Lock_def)

text \<open>
  C10.  With a negative duration \<open>LockWithTimeout\<close> returns what it returns with duration
  0: never \<open>ErrTimeout\<close>, and \<open>ErrLockHeld\<close> when the file opens and the lock is held
  elsewhere.
\<close>

theorem negative_duration_like_zero:
  assumes "d < 0"
  shows "LockWithTimeout pf e d fl w = LockWithTimeout pf e 0 fl w \<and>
         (\<exists>r fl' w'. LockWithTimeout pf e d fl w = Some (r, fl', w') \<and> r \<noteq> Some ErrTimeout \<and>
            (\<not> locked fl \<and> open_result e (open_calls w) = None \<and>
             lock_result e (lock_calls w) = Some (held_code pf) \<longrightarrow> r = Some ErrLockHeld))"
proof -
  have win: "windows_tryLock e d h v = windows_tryLock e 0 h v" for h v
    using assms by (simp add: windows_tryLock_eq)
  have unix: "unix_tryLock e d h v = unix_tryLock e 0 h v" for h v
    using assms by (simp add: unix_tryLock_eq)
  have same: "LockWithTimeout pf e d fl w = LockWithTimeout pf e 0 fl w"
    unfolding LockWithTimeout_def windows_LockWithTimeout_def unix_LockWithTimeout_def win unix
    by (rule refl)
  have "\<exists>r fl' w'. LockWithTimeout pf e d fl w = Some (r, fl', w') \<and> r \<noteq> Some ErrTimeout \<and>
            (\<not> locked fl \<and> open_result e (open_calls w) = None \<and>
             lock_result e (lock_calls w) = Some (held_code pf) \<longrightarrow> r = Some ErrLockHeld)"
  proof (cases "locked fl")
    case True
    then show ?thesis
      by (simp add: LockWithTimeout_locked)
  next
    case False
    obtain r fl' w' where
      ret: "LockWithTimeout pf e d fl w = Some (r, fl', w')" and
      post: "lwt_post e d fl w r fl' w'"
      using LockWithTimeout_returns [OF False] by blast
    have no_timeout: "r \<noteq> Some ErrTimeout"
      using post assms
      by (cases "open_result e (open_calls w)") (auto simp add: lwt_post_def split: if_splits)
    have "r = Some ErrLockHeld"
      if "open_result e (open_calls w) = None"
        and "lock_result e (lock_calls w) = Some (held_code pf)"
      using LockWithTimeout_contended [OF False that, of d] assms ret by auto
    then show ?thesis
      using ret no_timeout by simp
  qed
  then show ?thesis
    using same by blast
qed

theorem negative_duration_like_zero_witness:
  "(-1::int) < 0 \<and>
   LockWithTimeout Unix (held_forever Unix) (-1) (New ''a.lock'') boot =
     LockWithTimeout Unix (held_forever Unix) 0 (New ''a.lock'') boot \<and>
   LockWithTimeout Windows (held_forever Windows) (-1) (New ''a.lock'') boot =
     Some (Some ErrLockHeld, New ''a.lock'',
           boot\<lparr>next_fd := 1, open_calls := 1, lock_calls := 1, close_calls := 1\<rparr>)"
  using negative_duration_like_zero [of "-1" Unix "held_forever Unix" "New ''a.lock''" boot]
    negative_duration_like_zero [of "-1" Windows "held_forever Windows" "New ''a.lock''" boot]
  by (simp add: eval_defs)

end
